theory Spec2Isabelle
  imports Complex_Main
begin

section \<open>Numbers of the program\<close>

text \<open>
  \<^verbatim>\<open>src/src/logistic_regression.py\<close> computes on numpy arrays of IEEE-754 doubles
  (binary64). A double is a finite number, an infinity or a NaN, and numpy's default error
  state only warns on an overflow, a division by zero or an invalid operation, so every
  arithmetic operation of the script returns a value.

  In \<open>fl\<close> a finite double is the real number it denotes. An operation on finite doubles
  is the exact operation followed by rounding to the nearest double, ties to the even
  significand: 53 significant bits, exponents from -1022 (below which the spacing of the
  doubles stays \<open>2 powr - 1074\<close>, the subnormal range) to 1023, and a result whose rounded
  magnitude reaches \<open>2 ^ 1024\<close> is an infinity. Signed zeros are not distinguished: the
  divisors of the script are \<open>1 + exp (- z)\<close>, \<open>y.size\<close> and the number of elements in
  \<open>mean\<close>, none of which is a negative zero. \<^verbatim>\<open>np.exp\<close> and \<^verbatim>\<open>np.log\<close> are taken to
  round correctly; the library's may differ from that in the last place.
\<close>

datatype fl = Fin real | PInf | NInf | NaN

text \<open>Rounding a quotient to the nearest integer, ties to even.\<close>

definition round_half_even :: "real \<Rightarrow> int" where
  "round_half_even q =
     (let f = \<lfloor>q\<rfloor>; r = q - of_int f
      in if r < 1 / 2 then f else if 1 / 2 < r then f + 1 else if even f then f else f + 1)"

text \<open>The exponent of the binade of \<open>x\<close>, the spacing of the doubles there, and the
  magnitude from which a rounded result is infinite.\<close>

definition binade :: "real \<Rightarrow> int" where
  "binade x = max \<lfloor>log 2 \<bar>x\<bar>\<rfloor> (- 1022)"

definition ulp :: "real \<Rightarrow> real" where
  "ulp x = 2 powr (of_int (binade x) - 52)"

definition overflow_threshold :: real where
  "overflow_threshold = 2 ^ 1024"

definition rnd :: "real \<Rightarrow> fl" where
  "rnd x =
     (if x = 0 then Fin 0
      else let y = of_int (round_half_even (x / ulp x)) * ulp x
           in if overflow_threshold \<le> \<bar>y\<bar> then (if 0 < x then PInf else NInf) else Fin y)"

instantiation fl :: "{zero, one, plus, uminus, minus, times, inverse}"
begin

definition zero_fl :: fl where
  "zero_fl = Fin 0"

definition one_fl :: fl where
  "one_fl = Fin 1"

fun plus_fl :: "fl \<Rightarrow> fl \<Rightarrow> fl" where
  "plus_fl NaN b = NaN"
| "plus_fl a NaN = NaN"
| "plus_fl (Fin a) (Fin b) = rnd (a + b)"
| "plus_fl (Fin a) PInf = PInf"
| "plus_fl (Fin a) NInf = NInf"
| "plus_fl PInf (Fin b) = PInf"
| "plus_fl PInf PInf = PInf"
| "plus_fl PInf NInf = NaN"
| "plus_fl NInf (Fin b) = NInf"
| "plus_fl NInf PInf = NaN"
| "plus_fl NInf NInf = NInf"

fun uminus_fl :: "fl \<Rightarrow> fl" where
  "uminus_fl (Fin a) = Fin (- a)"
| "uminus_fl PInf = NInf"
| "uminus_fl NInf = PInf"
| "uminus_fl NaN = NaN"

definition minus_fl :: "fl \<Rightarrow> fl \<Rightarrow> fl" where
  "minus_fl (a::fl) b = a + (- b)"

fun times_fl :: "fl \<Rightarrow> fl \<Rightarrow> fl" where
  "times_fl NaN b = NaN"
| "times_fl a NaN = NaN"
| "times_fl (Fin a) (Fin b) = rnd (a * b)"
| "times_fl (Fin a) PInf = (if a = 0 then NaN else if 0 < a then PInf else NInf)"
| "times_fl (Fin a) NInf = (if a = 0 then NaN else if 0 < a then NInf else PInf)"
| "times_fl PInf (Fin b) = (if b = 0 then NaN else if 0 < b then PInf else NInf)"
| "times_fl NInf (Fin b) = (if b = 0 then NaN else if 0 < b then NInf else PInf)"
| "times_fl PInf PInf = PInf"
| "times_fl PInf NInf = NInf"
| "times_fl NInf PInf = NInf"
| "times_fl NInf NInf = PInf"

fun divide_fl :: "fl \<Rightarrow> fl \<Rightarrow> fl" where
  "divide_fl NaN b = NaN"
| "divide_fl a NaN = NaN"
| "divide_fl (Fin a) (Fin b) =
     (if b = 0 then (if a = 0 then NaN else if 0 < a then PInf else NInf)
      else rnd (a / b))"
| "divide_fl (Fin a) PInf = Fin 0"
| "divide_fl (Fin a) NInf = Fin 0"
| "divide_fl PInf (Fin b) = (if 0 \<le> b then PInf else NInf)"
| "divide_fl NInf (Fin b) = (if 0 \<le> b then NInf else PInf)"
| "divide_fl PInf PInf = NaN"
| "divide_fl PInf NInf = NaN"
| "divide_fl NInf PInf = NaN"
| "divide_fl NInf NInf = NaN"

definition inverse_fl :: "fl \<Rightarrow> fl" where
  "inverse_fl (a::fl) = divide (Fin 1) a"

instance ..

end

text \<open>\<^verbatim>\<open>np.exp\<close> and \<^verbatim>\<open>np.log\<close>: the exponential overflows to infinity and underflows
  to zero; the logarithm of zero is minus infinity, that of a negative number is NaN.\<close>

fun np_exp :: "fl \<Rightarrow> fl" where
  "np_exp (Fin a) = rnd (exp a)"
| "np_exp PInf = PInf"
| "np_exp NInf = Fin 0"
| "np_exp NaN = NaN"

fun np_log :: "fl \<Rightarrow> fl" where
  "np_log (Fin a) = (if 0 < a then rnd (ln a) else if a = 0 then NInf else NaN)"
| "np_log PInf = PInf"
| "np_log NInf = NaN"
| "np_log NaN = NaN"

text \<open>The integer \<^verbatim>\<open>y.size\<close> as a double.\<close>

definition of_size :: "nat \<Rightarrow> fl" where
  "of_size n = rnd (real n)"

text \<open>A sum of doubles. numpy leaves the order of the additions to its routines; here
  they go from the first element to the last.\<close>

definition np_sum :: "fl list \<Rightarrow> fl" where
  "np_sum a = foldl (+) 0 a"

section \<open>Arrays\<close>

text \<open>
  A 2-D array carries its shape, as numpy's does (a matrix with no row still has its
  number of columns); \<open>elems X i k\<close> is \<^verbatim>\<open>X[i, k]\<close>. A 1-D array is a list. numpy raises
  \<^verbatim>\<open>ValueError\<close> when the shapes of a product do not align or two operands cannot be
  broadcast together.
\<close>

record ndarray2 =
  nrows :: nat
  ncols :: nat
  elems :: "nat \<Rightarrow> nat \<Rightarrow> fl"

datatype error = ValueError

definition np_zeros :: "nat \<Rightarrow> fl list" where
  "np_zeros n = replicate n 0"

definition np_T :: "ndarray2 \<Rightarrow> ndarray2" where
  "np_T X = \<lparr>nrows = ncols X, ncols = nrows X, elems = (\<lambda>i k. elems X k i)\<rparr>"

definition np_dot :: "ndarray2 \<Rightarrow> fl list \<Rightarrow> error + fl list" where
  "np_dot A v =
     (if ncols A = length v
      then Inr (map (\<lambda>i. np_sum (map (\<lambda>k. elems A i k * v ! k) [0..<ncols A])) [0..<nrows A])
      else Inl ValueError)"

text \<open>An elementwise binary operation on two 1-D arrays: equal lengths, or one of the
  two has length 1 and is stretched.\<close>

definition broadcast :: "(fl \<Rightarrow> fl \<Rightarrow> fl) \<Rightarrow> fl list \<Rightarrow> fl list \<Rightarrow> error + fl list" where
  "broadcast f a b =
     (if length a = length b then Inr (map2 f a b)
      else if length b = 1 then Inr (map (\<lambda>u. f u (b ! 0)) a)
      else if length a = 1 then Inr (map (\<lambda>v. f (a ! 0) v) b)
      else Inl ValueError)"

definition mean :: "fl list \<Rightarrow> fl" where
  "mean a = np_sum a / of_size (length a)"

section \<open>The script\<close>

text \<open>\<^verbatim>\<open>def sigmoid_function(z): return 1/(1+np.exp(-z))\<close>\<close>

definition sigmoid_function :: "fl list \<Rightarrow> fl list" where
  "sigmoid_function z = map (\<lambda>v. 1 / (1 + np_exp (- v))) z"

text \<open>\<^verbatim>\<open>def cost_function(h,y): return (-y*np.log(h)-(1-y)*np.log(1-h)).mean()\<close>\<close>

definition cost_function :: "fl list \<Rightarrow> fl list \<Rightarrow> error + fl" where
  "cost_function h y =
     (case broadcast (*) (map uminus y) (map np_log h) of
        Inl err \<Rightarrow> Inl err
      | Inr a \<Rightarrow>
     (case broadcast (*) (map (\<lambda>v. 1 - v) y) (map (\<lambda>v. np_log (1 - v)) h) of
        Inl err \<Rightarrow> Inl err
      | Inr b \<Rightarrow>
     (case broadcast (-) a b of
        Inl err \<Rightarrow> Inl err
      | Inr c \<Rightarrow> Inr (mean c))))"

text \<open>What \<^verbatim>\<open>print\<close> writes: a loss value after \<^verbatim>\<open>J=\<close>, or a message.\<close>

datatype line = J_line fl | Text_line string

text \<open>The variables of \<^verbatim>\<open>logistic_reg\<close> that live across iterations, and the standard
  output. (\<^verbatim>\<open>num_iterations\<close> and \<^verbatim>\<open>J\<close> are assigned and never read.)\<close>

record state =
  converged :: bool
  iterations :: int
  theta :: "fl list"
  stdout :: "line list"

text \<open>Lines 42 to 45: the scores, the probabilities, the gradient and the new weights.\<close>

definition update_weights :: "fl \<Rightarrow> ndarray2 \<Rightarrow> fl list \<Rightarrow> fl list \<Rightarrow> error + fl list" where
  "update_weights alpha X y th =
     (case np_dot X th of
        Inl err \<Rightarrow> Inl err
      | Inr z \<Rightarrow>
     (case broadcast (-) (sigmoid_function z) y of
        Inl err \<Rightarrow> Inl err
      | Inr d \<Rightarrow>
     (case np_dot (np_T X) d of
        Inl err \<Rightarrow> Inl err
      | Inr g \<Rightarrow>
          broadcast (-) th (map (\<lambda>v. alpha * v) (map (\<lambda>v. v / of_size (length y)) g)))))"

text \<open>Lines 47 to 49: the loss at the new weights.\<close>

definition report_loss :: "ndarray2 \<Rightarrow> fl list \<Rightarrow> fl list \<Rightarrow> error + fl" where
  "report_loss X y th =
     (case np_dot X th of
        Inl err \<Rightarrow> Inl err
      | Inr z \<Rightarrow> cost_function (sigmoid_function z) y)"

text \<open>Lines 53 to 58: the counter and the exit test.\<close>

definition count_iteration :: "int \<Rightarrow> state \<Rightarrow> state" where
  "count_iteration max_iterations s =
     (let s1 = s\<lparr>iterations := iterations s + 1\<rparr>
      in if iterations s1 = max_iterations
         then s1\<lparr>stdout := stdout s1 @ [Text_line ''Maximum iterations exceeded!''],
                 converged := True\<rparr>
         else s1)"

text \<open>One pass through the body of the \<^verbatim>\<open>while\<close> loop, lines 42 to 58.\<close>

definition loop_body :: "fl \<Rightarrow> ndarray2 \<Rightarrow> fl list \<Rightarrow> int \<Rightarrow> state \<Rightarrow> error + state" where
  "loop_body alpha X y max_iterations s =
     (case update_weights alpha X y (theta s) of
        Inl err \<Rightarrow> Inl err
      | Inr th \<Rightarrow>
     (case report_loss X y th of
        Inl err \<Rightarrow> Inl err
      | Inr e \<Rightarrow>
          Inr (count_iteration max_iterations
                 (s\<lparr>theta := th, stdout := stdout s @ [J_line e]\<rparr>))))"

text \<open>\<^verbatim>\<open>while not converged: ...\<close>. The loop may run forever: \<open>None\<close> is a run that
  does not return, \<open>Some (Inl err)\<close> one that raises, \<open>Some (Inr s)\<close> one that leaves the
  loop in state \<open>s\<close>.\<close>

partial_function (option) while_not_converged ::
  "(state \<Rightarrow> error + state) \<Rightarrow> state \<Rightarrow> (error + state) option" where
  "while_not_converged body s =
     (if \<not> converged s
      then (case body s of
              Inl err \<Rightarrow> Some (Inl err)
            | Inr s' \<Rightarrow> while_not_converged body s')
      else Some (Inr s))"

text \<open>\<^verbatim>\<open>def logistic_reg(alpha,X,y,max_iterations=70000)\<close>: the result is the returned
  \<^verbatim>\<open>theta\<close>, together with what was printed. \<^verbatim>\<open>max_iterations\<close> is a Python integer;
  a caller that omits it passes 70000.\<close>

definition initial_state :: "ndarray2 \<Rightarrow> state" where
  "initial_state X =
     \<lparr>converged = False, iterations = 0, theta = np_zeros (ncols X), stdout = []\<rparr>"

definition logistic_reg ::
  "fl \<Rightarrow> ndarray2 \<Rightarrow> fl list \<Rightarrow> int \<Rightarrow> (error + fl list \<times> line list) option" where
  "logistic_reg alpha X y max_iterations =
     (case while_not_converged (loop_body alpha X y max_iterations) (initial_state X) of
        None \<Rightarrow> None
      | Some (Inl err) \<Rightarrow> Some (Inl err)
      | Some (Inr s) \<Rightarrow> Some (Inr (theta s, stdout s)))"

text \<open>\<^verbatim>\<open>def predict_prob(X): return sigmoid_function(np.dot(X,theta))\<close>, a closure over
  the trained \<^verbatim>\<open>theta\<close>, which is its first argument here.\<close>

definition predict_prob :: "fl list \<Rightarrow> ndarray2 \<Rightarrow> error + fl list" where
  "predict_prob th X =
     (case np_dot X th of
        Inl err \<Rightarrow> Inl err
      | Inr z \<Rightarrow> Inr (sigmoid_function z))"

section \<open>Notions used to state the properties\<close>

text \<open>The shapes on which no operation of the loop raises: \<^verbatim>\<open>y\<close> has one label per
  row of \<^verbatim>\<open>X\<close>, or a single label that numpy broadcasts.\<close>

definition shapes_ok :: "ndarray2 \<Rightarrow> fl list \<Rightarrow> bool" where
  "shapes_ok X y = (length y = nrows X \<or> length y = 1)"

text \<open>\<open>k\<close> passes through a loop body, whatever the exit flag says.\<close>

primrec iterate_body :: "nat \<Rightarrow> (state \<Rightarrow> error + state) \<Rightarrow> state \<Rightarrow> error + state" where
  "iterate_body 0 body s = Inr s"
| "iterate_body (Suc k) body s =
     (case body s of Inl err \<Rightarrow> Inl err | Inr s' \<Rightarrow> iterate_body k body s')"

text \<open>\<open>k\<close> weight updates in a row, and the losses at the weights they produce.\<close>

primrec updates :: "nat \<Rightarrow> fl \<Rightarrow> ndarray2 \<Rightarrow> fl list \<Rightarrow> fl list \<Rightarrow> error + fl list" where
  "updates 0 alpha X y th = Inr th"
| "updates (Suc k) alpha X y th =
     (case update_weights alpha X y th of
        Inl err \<Rightarrow> Inl err
      | Inr th' \<Rightarrow> updates k alpha X y th')"

primrec losses :: "nat \<Rightarrow> fl \<Rightarrow> ndarray2 \<Rightarrow> fl list \<Rightarrow> fl list \<Rightarrow> error + fl list" where
  "losses 0 alpha X y th = Inr []"
| "losses (Suc k) alpha X y th =
     (case update_weights alpha X y th of
        Inl err \<Rightarrow> Inl err
      | Inr th' \<Rightarrow>
     (case report_loss X y th' of
        Inl err \<Rightarrow> Inl err
      | Inr e \<Rightarrow>
     (case losses k alpha X y th' of
        Inl err \<Rightarrow> Inl err
      | Inr es \<Rightarrow> Inr (e # es))))"

text \<open>The loop with lines 47 to 51 removed: no second evaluation of the scores and the
  probabilities, no loss, no \<^verbatim>\<open>J=\<close> line.\<close>

definition loop_body_no_loss ::
  "fl \<Rightarrow> ndarray2 \<Rightarrow> fl list \<Rightarrow> int \<Rightarrow> state \<Rightarrow> error + state" where
  "loop_body_no_loss alpha X y max_iterations s =
     (case update_weights alpha X y (theta s) of
        Inl err \<Rightarrow> Inl err
      | Inr th \<Rightarrow> Inr (count_iteration max_iterations (s\<lparr>theta := th\<rparr>)))"

definition logistic_reg_no_loss ::
  "fl \<Rightarrow> ndarray2 \<Rightarrow> fl list \<Rightarrow> int \<Rightarrow> (error + fl list) option" where
  "logistic_reg_no_loss alpha X y max_iterations =
     (case while_not_converged (loop_body_no_loss alpha X y max_iterations) (initial_state X) of
        None \<Rightarrow> None
      | Some (Inl err) \<Rightarrow> Some (Inl err)
      | Some (Inr s) \<Rightarrow> Some (Inr (theta s)))"

text \<open>What a pass leaves in the variables of the algorithm: everything but the output.\<close>

definition variables :: "state \<Rightarrow> bool \<times> int \<times> fl list" where
  "variables s = (converged s, iterations s, theta s)"

text \<open>\<^verbatim>\<open>np.array\<close> of a list of rows of equal length (only the elements inside the
  shape are ever read), and the data used as concrete inputs: a single sample with a
  single feature, and the four points of the specification's scenario.\<close>

definition np_array :: "fl list list \<Rightarrow> ndarray2" where
  "np_array rows =
     \<lparr>nrows = length rows,
      ncols = (case rows of [] \<Rightarrow> 0 | r # _ \<Rightarrow> length r),
      elems = (\<lambda>i k. rows ! i ! k)\<rparr>"

definition X_one :: ndarray2 where
  "X_one = np_array [[1]]"

definition X_and :: ndarray2 where
  "X_and = np_array [[0, 0], [0, 1], [1, 0], [1, 1]]"

definition y_and :: "fl list" where
  "y_and = [0, 0, 0, 1]"

text \<open>The lines of the output that carry a loss value.\<close>

fun is_loss_line :: "line \<Rightarrow> bool" where
  "is_loss_line (J_line e) = True"
| "is_loss_line (Text_line t) = False"

text \<open>A call of \<^verbatim>\<open>predict_prob\<close> in the main program: its result, and the value of the
  global \<^verbatim>\<open>theta\<close> after the call; then a sequence of calls.\<close>

definition call_predict_prob :: "ndarray2 \<Rightarrow> fl list \<Rightarrow> (error + fl list) \<times> fl list" where
  "call_predict_prob X th = (predict_prob th X, th)"

primrec predict_calls :: "ndarray2 list \<Rightarrow> fl list \<Rightarrow> (error + fl list) list \<times> fl list" where
  "predict_calls [] th = ([], th)"
| "predict_calls (X # Xs) th =
     (case call_predict_prob X th of (r, th1) \<Rightarrow>
        (case predict_calls Xs th1 of (rs, th2) \<Rightarrow> (r # rs, th2)))"

text \<open>A value that is NaN or lies between 0 and 1, both included.\<close>

fun unit_interval :: "fl \<Rightarrow> bool" where
  "unit_interval (Fin p) = (0 \<le> p \<and> p \<le> 1)"
| "unit_interval NaN = True"
| "unit_interval v = False"

text \<open>The formulas of the specification, by index, on the numbers of the program: the
  scores \<open>z = X \<cdot> w\<close>; the probabilities \<open>h = 1 / (1 + exp (- z))\<close>; the gradient
  \<open>X\<^sup>T \<cdot> (h - y) / n_samples\<close>; the new weights \<open>w - learning_rate * gradient\<close>.\<close>

definition spec_score :: "ndarray2 \<Rightarrow> fl list \<Rightarrow> nat \<Rightarrow> fl" where
  "spec_score X w i = np_sum (map (\<lambda>k. elems X i k * w ! k) [0..<ncols X])"

definition spec_probability :: "ndarray2 \<Rightarrow> fl list \<Rightarrow> nat \<Rightarrow> fl" where
  "spec_probability X w i = 1 / (1 + np_exp (- spec_score X w i))"

definition spec_gradient :: "ndarray2 \<Rightarrow> fl list \<Rightarrow> fl list \<Rightarrow> nat \<Rightarrow> fl" where
  "spec_gradient X y w j =
     np_sum (map (\<lambda>i. elems X i j * (spec_probability X w i - y ! i)) [0..<nrows X])
       / of_size (nrows X)"

definition spec_update :: "fl \<Rightarrow> ndarray2 \<Rightarrow> fl list \<Rightarrow> fl list \<Rightarrow> fl list" where
  "spec_update learning_rate X y w =
     map (\<lambda>j. w ! j - learning_rate * spec_gradient X y w j) [0..<ncols X]"

section \<open>Shapes\<close>

lemma np_dot_Inr: "np_dot A v = Inr z \<Longrightarrow> length v = ncols A \<and> length z = nrows A"
  by (auto simp: np_dot_def split: if_splits)

lemma np_dot_ok: "length v = ncols A \<Longrightarrow> \<exists>z. np_dot A v = Inr z \<and> length z = nrows A"
  by (simp add: np_dot_def)

lemma np_dot_err: "length v \<noteq> ncols A \<Longrightarrow> np_dot A v = Inl ValueError"
  by (simp add: np_dot_def)

lemma broadcast_same: "length a = length b \<Longrightarrow> broadcast f a b = Inr (map2 f a b)"
  by (simp add: broadcast_def)

lemma broadcast_length:
  "broadcast f a b = Inr c \<Longrightarrow>
     length c = (if length a = length b then length a else if length b = 1 then length a else length b)"
  by (auto simp: broadcast_def split: if_splits)

lemma update_weights_ok:
  assumes "length th = ncols X" "shapes_ok X y"
  shows "\<exists>th'. update_weights alpha X y th = Inr th' \<and> length th' = ncols X"
proof -
  obtain z where z: "np_dot X th = Inr z" "length z = nrows X"
    using np_dot_ok [of th X] assms(1) by auto
  have "\<exists>d. broadcast (-) (sigmoid_function z) y = Inr d \<and> length d = nrows X"
    using assms(2) z(2) by (auto simp: broadcast_def shapes_ok_def sigmoid_function_def)
  then obtain d where d: "broadcast (-) (sigmoid_function z) y = Inr d" "length d = nrows X"
    by auto
  obtain g where g: "np_dot (np_T X) d = Inr g" "length g = ncols X"
    using np_dot_ok [of d "np_T X"] d(2) by (auto simp: np_T_def)
  show ?thesis
    using z d g assms(1) by (simp add: update_weights_def broadcast_def)
qed

lemma update_weights_err:
  assumes "length th = ncols X" "\<not> shapes_ok X y"
  shows "update_weights alpha X y th = Inl ValueError"
proof -
  obtain z where z: "np_dot X th = Inr z" "length z = nrows X"
    using np_dot_ok [of th X] assms(1) by auto
  show ?thesis
  proof (cases "broadcast (-) (sigmoid_function z) y")
    case (Inl e)
    then show ?thesis using z by (cases e) (simp add: update_weights_def)
  next
    case (Inr d)
    then have "length d \<noteq> nrows X"
      using assms(2) z(2) broadcast_length [OF Inr]
      by (auto simp: shapes_ok_def sigmoid_function_def split: if_splits)
    then have "np_dot (np_T X) d = Inl ValueError"
      by (simp add: np_dot_def np_T_def)
    then show ?thesis using z Inr by (simp add: update_weights_def)
  qed
qed

lemma update_weights_Inr:
  assumes "update_weights alpha X y th = Inr th'"
  shows "length th = ncols X \<and> shapes_ok X y \<and> length th' = ncols X"
proof -
  have 1: "length th = ncols X"
  proof (rule ccontr)
    assume "length th \<noteq> ncols X"
    then have "np_dot X th = Inl ValueError" by (rule np_dot_err)
    then show False using assms by (simp add: update_weights_def)
  qed
  have 2: "shapes_ok X y"
    using assms update_weights_err [OF 1, of y alpha] by auto
  show ?thesis using 1 2 update_weights_ok [OF 1 2, of alpha] assms by auto
qed

lemma cost_function_ok:
  assumes "length h = n" "length y = n \<or> length y = 1"
  shows "\<exists>e. cost_function h y = Inr e"
  using assms by (auto simp: cost_function_def broadcast_def)

lemma report_loss_ok:
  assumes "length th = ncols X" "shapes_ok X y"
  shows "\<exists>e. report_loss X y th = Inr e"
proof -
  obtain z where z: "np_dot X th = Inr z" "length z = nrows X"
    using np_dot_ok [of th X] assms(1) by auto
  show ?thesis
    using z assms(2) cost_function_ok [of "sigmoid_function z" "nrows X" y]
    by (auto simp: report_loss_def shapes_ok_def sigmoid_function_def)
qed

section \<open>The loop\<close>

lemma count_iteration_simps:
  "iterations (count_iteration m s) = iterations s + 1"
  "theta (count_iteration m s) = theta s"
  "converged (count_iteration m s) = (iterations s + 1 = m \<or> converged s)"
  "stdout (count_iteration m s) =
     stdout s @ (if iterations s + 1 = m then [Text_line ''Maximum iterations exceeded!''] else [])"
  by (simp_all add: count_iteration_def Let_def)

lemma loop_body_ok:
  assumes "length (theta s) = ncols X" "shapes_ok X y"
  shows "\<exists>th e. update_weights alpha X y (theta s) = Inr th \<and> length th = ncols X \<and>
           report_loss X y th = Inr e \<and>
           loop_body alpha X y m s =
             Inr (count_iteration m (s\<lparr>theta := th, stdout := stdout s @ [J_line e]\<rparr>))"
proof -
  obtain th where th: "update_weights alpha X y (theta s) = Inr th" "length th = ncols X"
    using update_weights_ok [OF assms] by blast
  obtain e where e: "report_loss X y th = Inr e"
    using report_loss_ok [OF th(2) assms(2)] by blast
  show ?thesis using th e by (simp add: loop_body_def)
qed

lemma loop_body_err:
  assumes "length (theta s) = ncols X" "\<not> shapes_ok X y"
  shows "loop_body alpha X y m s = Inl ValueError"
  using update_weights_err [OF assms] by (simp add: loop_body_def)

lemma iterate_body_run:
  assumes "length (theta s) = ncols X" "shapes_ok X y" "\<not> converged s"
    "iterations s + int k \<le> m"
  shows "\<exists>s' es. iterate_body k (loop_body alpha X y m) s = Inr s' \<and>
           iterations s' = iterations s + int k \<and>
           (converged s' \<longleftrightarrow> 0 < k \<and> iterations s' = m) \<and>
           updates k alpha X y (theta s) = Inr (theta s') \<and>
           length (theta s') = ncols X \<and>
           losses k alpha X y (theta s) = Inr es \<and> length es = k \<and>
           stdout s' = stdout s @ map J_line es @
             (if 0 < k \<and> iterations s' = m then [Text_line ''Maximum iterations exceeded!''] else [])"
  using assms
proof (induction k arbitrary: s)
  case 0
  then show ?case by simp
next
  case (Suc k)
  obtain th e where b: "update_weights alpha X y (theta s) = Inr th" "length th = ncols X"
      "report_loss X y th = Inr e"
      "loop_body alpha X y m s =
         Inr (count_iteration m (s\<lparr>theta := th, stdout := stdout s @ [J_line e]\<rparr>))"
    using loop_body_ok [OF Suc.prems(1,2)] by blast
  define s1 where "s1 = count_iteration m (s\<lparr>theta := th, stdout := stdout s @ [J_line e]\<rparr>)"
  have s1: "iterations s1 = iterations s + 1" "theta s1 = th"
    "converged s1 = (iterations s + 1 = m)"
    "stdout s1 = stdout s @ [J_line e] @
       (if iterations s + 1 = m then [Text_line ''Maximum iterations exceeded!''] else [])"
    using Suc.prems(3) by (simp_all add: s1_def count_iteration_simps)
  show ?case
  proof (cases "k = 0")
    case True
    then show ?thesis using b s1 by (simp add: s1_def [symmetric])
  next
    case False
    then have nc: "\<not> converged s1" and le: "iterations s1 + int k \<le> m"
      using Suc.prems(4) s1 by auto
    have len: "length (theta s1) = ncols X" using s1 b by simp
    obtain s' es where r: "iterate_body k (loop_body alpha X y m) s1 = Inr s'"
      "iterations s' = iterations s1 + int k"
      "converged s' \<longleftrightarrow> 0 < k \<and> iterations s' = m"
      "updates k alpha X y (theta s1) = Inr (theta s')"
      "length (theta s') = ncols X"
      "losses k alpha X y (theta s1) = Inr es" "length es = k"
      "stdout s' = stdout s1 @ map J_line es @
         (if 0 < k \<and> iterations s' = m then [Text_line ''Maximum iterations exceeded!''] else [])"
      using Suc.IH [OF len Suc.prems(2) nc le] by blast
    have "iterations s + 1 \<noteq> m" using False Suc.prems(4) by auto
    then show ?thesis
      using b r s1 False by (simp add: s1_def [symmetric])
  qed
qed

lemma while_as_iterate:
  assumes "length (theta s) = ncols X" "shapes_ok X y" "\<not> converged s" "iterations s < m"
  shows "while_not_converged (loop_body alpha X y m) s =
           Some (iterate_body (nat (m - iterations s)) (loop_body alpha X y m) s)"
  using assms
proof (induction "nat (m - iterations s)" arbitrary: s)
  case 0
  then show ?case by simp
next
  case (Suc n)
  obtain th e where b: "length th = ncols X"
      "loop_body alpha X y m s =
         Inr (count_iteration m (s\<lparr>theta := th, stdout := stdout s @ [J_line e]\<rparr>))"
    using loop_body_ok [OF Suc.prems(1,2)] by blast
  define s1 where "s1 = count_iteration m (s\<lparr>theta := th, stdout := stdout s @ [J_line e]\<rparr>)"
  have s1: "iterations s1 = iterations s + 1" "theta s1 = th"
    "converged s1 = (iterations s + 1 = m)"
    using Suc.prems(3) by (simp_all add: s1_def count_iteration_simps)
  have n: "nat (m - iterations s) = Suc (nat (m - iterations s1))"
    using s1 Suc.prems(4) by simp
  show ?case
  proof (cases "iterations s + 1 = m")
    case True
    then have "while_not_converged (loop_body alpha X y m) s1 = Some (Inr s1)"
      using s1 by (subst while_not_converged.simps) simp
    moreover have "nat (m - iterations s1) = 0" using True s1 by simp
    ultimately show ?thesis
      using b Suc.prems(3) n
      by (subst while_not_converged.simps) (simp add: s1_def [symmetric])
  next
    case False
    have "while_not_converged (loop_body alpha X y m) s1 =
            Some (iterate_body (nat (m - iterations s1)) (loop_body alpha X y m) s1)"
      using Suc.hyps(2) Suc.prems s1 b False n
      by (intro Suc.hyps(1)) auto
    then show ?thesis
      using b Suc.prems(3) n
      by (subst while_not_converged.simps) (simp add: s1_def [symmetric])
  qed
qed

text \<open>Past the maximum, the counter never meets it again.\<close>

lemma while_never_returns:
  assumes "while_not_converged (loop_body alpha X y m) s = Some r"
    "\<not> converged s" "m \<le> iterations s"
  shows "\<exists>err. r = Inl err"
proof -
  define P where "P = (\<lambda>(body :: state \<Rightarrow> error + state) (s :: state) (r :: error + state). body = loop_body alpha X y m \<longrightarrow> \<not> converged s \<longrightarrow>
    m \<le> iterations s \<longrightarrow> (\<exists>err. r = Inl err))"
  have "P (loop_body alpha X y m) s r"
  proof (rule while_not_converged.raw_induct [where P = P, OF _ assms(1)])
    fix w :: "(state \<Rightarrow> error + state) \<Rightarrow> state \<Rightarrow> (error + state) option"
    fix body s r
    assume IH: "\<And>b t u. w b t = Some u \<Longrightarrow> P b t u"
    assume eq: "(if \<not> converged s
                 then case body s of Inl err \<Rightarrow> Some (Inl err) | Inr s' \<Rightarrow> w body s'
                 else Some (Inr s)) = Some r"
    show "P body s r"
      unfolding P_def
    proof (intro impI)
      assume B: "body = loop_body alpha X y m" and nc: "\<not> converged s"
        and le: "m \<le> iterations s"
      show "\<exists>err. r = Inl err"
      proof (cases "body s")
        case (Inl err)
        then have "r = Inl err" using eq nc by simp
        then show ?thesis by blast
      next
        case (Inr s')
        then have w: "w body s' = Some r" using eq nc by simp
        have "\<not> converged s' \<and> m \<le> iterations s'"
          using Inr B nc le
          by (auto simp: loop_body_def count_iteration_simps split: sum.splits)
        then show ?thesis using IH [OF w] B by (simp add: P_def)
      qed
    qed
  qed
  then show ?thesis using assms by (simp add: P_def)
qed

lemma while_never_raises:
  assumes "while_not_converged (loop_body alpha X y m) s = Some r"
    "length (theta s) = ncols X" "shapes_ok X y"
  shows "\<exists>s'. r = Inr s'"
proof -
  define P where "P = (\<lambda>(body :: state \<Rightarrow> error + state) (s :: state) (r :: error + state). body = loop_body alpha X y m \<longrightarrow>
    length (theta s) = ncols X \<longrightarrow> (\<exists>s'. r = Inr s'))"
  have "P (loop_body alpha X y m) s r"
  proof (rule while_not_converged.raw_induct [where P = P, OF _ assms(1)])
    fix w :: "(state \<Rightarrow> error + state) \<Rightarrow> state \<Rightarrow> (error + state) option"
    fix body s r
    assume IH: "\<And>b t u. w b t = Some u \<Longrightarrow> P b t u"
    assume eq: "(if \<not> converged s
                 then case body s of Inl err \<Rightarrow> Some (Inl err) | Inr s' \<Rightarrow> w body s'
                 else Some (Inr s)) = Some r"
    show "P body s r"
      unfolding P_def
    proof (intro impI)
      assume B: "body = loop_body alpha X y m" and len: "length (theta s) = ncols X"
      show "\<exists>s'. r = Inr s'"
      proof (cases "converged s")
        case True
        then show ?thesis using eq by auto
      next
        case False
        obtain th e where b: "length th = ncols X"
          "loop_body alpha X y m s =
             Inr (count_iteration m (s\<lparr>theta := th, stdout := stdout s @ [J_line e]\<rparr>))"
          using loop_body_ok [OF len assms(3)] by blast
        define s1 where
          "s1 = count_iteration m (s\<lparr>theta := th, stdout := stdout s @ [J_line e]\<rparr>)"
        have w: "w body s1 = Some r" using eq B b False by (simp add: s1_def)
        have "length (theta s1) = ncols X" using b by (simp add: s1_def count_iteration_simps)
        then show ?thesis using IH [OF w] B by (simp add: P_def)
      qed
    qed
  qed
  then show ?thesis using assms by (simp add: P_def)
qed

lemma while_diverges:
  assumes "length (theta s) = ncols X" "shapes_ok X y" "\<not> converged s" "m \<le> iterations s"
  shows "while_not_converged (loop_body alpha X y m) s = None"
proof (cases "while_not_converged (loop_body alpha X y m) s")
  case None
  then show ?thesis .
next
  case (Some r)
  then show ?thesis
    using while_never_returns [OF Some assms(3,4)]
      while_never_raises [OF Some assms(1,2)] by auto
qed

lemma while_raises:
  assumes "length (theta s) = ncols X" "\<not> shapes_ok X y" "\<not> converged s"
  shows "while_not_converged (loop_body alpha X y m) s = Some (Inl ValueError)"
  using loop_body_err [OF assms(1,2)] assms(3)
  by (subst while_not_converged.simps) simp

lemma initial_state_simps:
  "converged (initial_state X) = False" "iterations (initial_state X) = 0"
  "theta (initial_state X) = np_zeros (ncols X)" "stdout (initial_state X) = []"
  "length (theta (initial_state X)) = ncols X"
  by (simp_all add: initial_state_def np_zeros_def)

section \<open>Runs of logistic_reg\<close>

lemma logistic_reg_run:
  assumes "shapes_ok X y" "1 \<le> m"
  shows "\<exists>s es. iterate_body (nat m) (loop_body alpha X y m) (initial_state X) = Inr s \<and>
           logistic_reg alpha X y m = Some (Inr (theta s, stdout s)) \<and>
           iterations s = m \<and> converged s \<and>
           updates (nat m) alpha X y (np_zeros (ncols X)) = Inr (theta s) \<and>
           length (theta s) = ncols X \<and>
           losses (nat m) alpha X y (np_zeros (ncols X)) = Inr es \<and> length es = nat m \<and>
           stdout s = map J_line es @ [Text_line ''Maximum iterations exceeded!'']"
proof -
  let ?s0 = "initial_state X"
  have i: "iterations ?s0 + int (nat m) \<le> m"
    using assms(2) by (simp add: initial_state_simps)
  have nc: "\<not> converged ?s0" by (simp add: initial_state_simps)
  obtain s es where r: "iterate_body (nat m) (loop_body alpha X y m) ?s0 = Inr s"
      "iterations s = iterations ?s0 + int (nat m)"
      "converged s \<longleftrightarrow> 0 < nat m \<and> iterations s = m"
      "updates (nat m) alpha X y (theta ?s0) = Inr (theta s)"
      "length (theta s) = ncols X"
      "losses (nat m) alpha X y (theta ?s0) = Inr es" "length es = nat m"
      "stdout s = stdout ?s0 @ map J_line es @
         (if 0 < nat m \<and> iterations s = m then [Text_line ''Maximum iterations exceeded!'']
          else [])"
    using iterate_body_run [OF initial_state_simps(5) assms(1) nc i, where alpha = alpha]
    by blast
  have w: "while_not_converged (loop_body alpha X y m) ?s0 = Some (Inr s)"
    using while_as_iterate [OF initial_state_simps(5) assms(1) nc, where m = m and alpha = alpha]
      assms(2) r(1)
    by (simp add: initial_state_simps)
  have "iterations s = m" using r(2) assms(2) by (simp add: initial_state_simps)
  then show ?thesis
    using r w assms(2) by (simp add: logistic_reg_def initial_state_simps)
qed

lemma logistic_reg_raises:
  assumes "\<not> shapes_ok X y"
  shows "logistic_reg alpha X y m = Some (Inl ValueError)"
  using while_raises [OF initial_state_simps(5) assms, where m = m and alpha = alpha]
  by (simp add: logistic_reg_def initial_state_simps)

lemma logistic_reg_diverges:
  assumes "shapes_ok X y" "m \<le> 0"
  shows "logistic_reg alpha X y m = None"
  using while_diverges [OF initial_state_simps(5) assms(1), where m = m and alpha = alpha]
    assms(2)
  by (simp add: logistic_reg_def initial_state_simps)

lemma loop_body_length:
  assumes "loop_body alpha X y m s = Inr s'"
  shows "length (theta s') = ncols X"
proof -
  obtain th where th: "update_weights alpha X y (theta s) = Inr th"
    using assms by (auto simp: loop_body_def split: sum.splits)
  then have "theta s' = th"
    using assms by (auto simp: loop_body_def count_iteration_simps split: sum.splits)
  then show ?thesis using update_weights_Inr [OF th] by simp
qed

lemma iterate_body_length:
  "iterate_body k (loop_body alpha X y m) s = Inr s' \<Longrightarrow> length (theta s) = ncols X \<Longrightarrow>
     length (theta s') = ncols X"
proof (induction k arbitrary: s)
  case 0
  then show ?case by simp
next
  case (Suc k)
  then show ?case
    by (auto split: sum.splits dest: loop_body_length)
qed

lemma logistic_reg_returns:
  assumes "logistic_reg alpha X y m = Some (Inr (th, out))"
  shows "shapes_ok X y \<and> 1 \<le> m \<and> length th = ncols X"
proof -
  have 1: "shapes_ok X y"
    using assms logistic_reg_raises [of X y alpha m] by auto
  have 2: "1 \<le> m"
    using assms logistic_reg_diverges [OF 1, of m alpha] by (cases "m \<le> 0") auto
  show ?thesis using 1 2 logistic_reg_run [OF 1 2, of alpha] assms by auto
qed

lemma iterate_body_past_maximum:
  "iterate_body k (loop_body alpha X y m) s = Inr s' \<Longrightarrow> \<not> converged s \<Longrightarrow>
     m \<le> iterations s \<Longrightarrow> \<not> converged s' \<and> iterations s' = iterations s + int k"
proof (induction k arbitrary: s)
  case 0
  then show ?case by simp
next
  case (Suc k)
  then obtain s1 where b: "loop_body alpha X y m s = Inr s1"
      and r: "iterate_body k (loop_body alpha X y m) s1 = Inr s'"
    by (auto split: sum.splits)
  have "\<not> converged s1 \<and> iterations s1 = iterations s + 1"
    using b Suc.prems(2,3)
    by (auto simp: loop_body_def count_iteration_simps split: sum.splits)
  then show ?case using Suc.IH [OF r] Suc.prems(3) by simp
qed

section \<open>Properties of the training loop\<close>

text \<open>
  C2. With \<open>max_iterations \<ge> 1\<close> (and shapes on which numpy does not raise) the loop
  terminates: \<open>logistic_reg\<close> returns, and the weights it returns are those of exactly
  \<open>max_iterations\<close> updates of the zero vector. The exit depends on the counter alone:
  after \<open>k \<le> max_iterations\<close> passes the counter is \<open>k\<close> and the exit flag is set
  exactly when \<open>k = max_iterations\<close>, whatever the learning rate, the data, the loss or
  the gradient.
\<close>

theorem logistic_reg_terminates:
  assumes "shapes_ok X y" "1 \<le> max_iterations"
  shows "(\<exists>th out. logistic_reg alpha X y max_iterations = Some (Inr (th, out)) \<and>
            updates (nat max_iterations) alpha X y (np_zeros (ncols X)) = Inr th) \<and>
         (\<forall>k \<le> nat max_iterations.
            \<exists>s. iterate_body k (loop_body alpha X y max_iterations) (initial_state X) = Inr s \<and>
                iterations s = int k \<and> (converged s \<longleftrightarrow> int k = max_iterations))"
proof (intro conjI allI impI)
  show "\<exists>th out. logistic_reg alpha X y max_iterations = Some (Inr (th, out)) \<and>
          updates (nat max_iterations) alpha X y (np_zeros (ncols X)) = Inr th"
    using logistic_reg_run [OF assms, of alpha] by auto
next
  fix k assume k: "k \<le> nat max_iterations"
  let ?s0 = "initial_state X"
  have i: "iterations ?s0 + int k \<le> max_iterations"
    using k assms(2) by (simp add: initial_state_simps)
  have nc: "\<not> converged ?s0" by (simp add: initial_state_simps)
  obtain s where "iterate_body k (loop_body alpha X y max_iterations) ?s0 = Inr s"
      "iterations s = iterations ?s0 + int k"
      "converged s \<longleftrightarrow> 0 < k \<and> iterations s = max_iterations"
    using iterate_body_run [OF initial_state_simps(5) assms(1) nc i, where alpha = alpha]
    by blast
  then show "\<exists>s. iterate_body k (loop_body alpha X y max_iterations) ?s0 = Inr s \<and>
               iterations s = int k \<and> (converged s \<longleftrightarrow> int k = max_iterations)"
    using assms(2) by (auto simp: initial_state_simps)
qed

lemma sample_shapes: "shapes_ok X_one [1]" "shapes_ok X_and y_and"
  "ncols X_one = 1" "ncols X_and = 2" "nrows X_and = 4" "nrows X_one = 1"
  by (simp_all add: shapes_ok_def X_one_def X_and_def y_and_def np_array_def)

theorem logistic_reg_terminates_witness:
  "\<exists>th out. logistic_reg (Fin (1/10)) X_and y_and 1000 = Some (Inr (th, out)) \<and>
     updates 1000 (Fin (1/10)) X_and y_and (np_zeros (ncols X_and)) = Inr th"
  using logistic_reg_terminates [of X_and y_and 1000 "Fin (1/10)"] sample_shapes by simp

text \<open>
  C3. The weight vector starts as the zero vector of length \<open>n_features = ncols X\<close>, has
  that length after every number of passes through the loop body, and the vector
  \<open>logistic_reg\<close> returns has that length (also when \<open>n_features = 1\<close>).
\<close>

theorem weight_vector_length:
  "theta (initial_state X) = replicate (ncols X) 0 \<and>
   (\<forall>k s. iterate_body k (loop_body alpha X y max_iterations) (initial_state X) = Inr s \<longrightarrow>
      length (theta s) = ncols X) \<and>
   (\<forall>th out. logistic_reg alpha X y max_iterations = Some (Inr (th, out)) \<longrightarrow>
      length th = ncols X)"
  using iterate_body_length [OF _ initial_state_simps(5)] logistic_reg_returns
  by (auto simp: initial_state_simps np_zeros_def)

theorem weight_vector_length_witness:
  "theta (initial_state X_one) = [0] \<and>
   (\<exists>th out. logistic_reg (Fin (1/10)) X_one [1] 3 = Some (Inr (th, out)) \<and> length th = 1)"
proof -
  obtain th out where "logistic_reg (Fin (1/10)) X_one [1] 3 = Some (Inr (th, out))"
    using logistic_reg_run [OF sample_shapes(1), of 3 "Fin (1/10)"] by auto
  then show ?thesis
    using weight_vector_length [of X_one "Fin (1/10)" "[1]" 3] sample_shapes by auto
qed

text \<open>
  C10. With \<open>max_iterations \<le> 0\<close> the call never returns: the counter is \<open>k \<ge> 1\<close> at
  the \<open>k\<close>-th exit test, so the equality with \<open>max_iterations\<close> is never met and the exit
  flag is never set. On shapes that numpy accepts the loop runs forever; on the others
  the first pass raises.
\<close>

theorem nonpositive_maximum_never_returns:
  assumes "max_iterations \<le> 0"
  shows "(\<forall>r. logistic_reg alpha X y max_iterations \<noteq> Some (Inr r)) \<and>
         (shapes_ok X y \<longrightarrow> logistic_reg alpha X y max_iterations = None) \<and>
         (\<forall>k s. iterate_body k (loop_body alpha X y max_iterations) (initial_state X) = Inr s \<longrightarrow>
            \<not> converged s \<and> iterations s = int k)"
proof (intro conjI allI impI)
  fix r show "logistic_reg alpha X y max_iterations \<noteq> Some (Inr r)"
    using logistic_reg_returns [of alpha X y max_iterations "fst r" "snd r"] assms by auto
next
  assume "shapes_ok X y"
  then show "logistic_reg alpha X y max_iterations = None"
    using assms by (rule logistic_reg_diverges)
next
  fix k s
  assume "iterate_body k (loop_body alpha X y max_iterations) (initial_state X) = Inr s"
  then show "\<not> converged s" "iterations s = int k"
    using iterate_body_past_maximum [of k alpha X y max_iterations "initial_state X" s] assms
    by (simp_all add: initial_state_simps)
qed

theorem nonpositive_maximum_never_returns_witness:
  "logistic_reg (Fin (1/10)) X_and y_and 0 = None \<and>
   logistic_reg (Fin (1/10)) X_and y_and (- 5) = None"
  using nonpositive_maximum_never_returns [of 0 "Fin (1/10)" X_and y_and]
    nonpositive_maximum_never_returns [of "- 5" "Fin (1/10)" X_and y_and]
    sample_shapes by simp

lemma while_simulation:
  assumes step: "\<And>s t. R s t \<Longrightarrow> converged s = converged t \<and> rel_sum (=) R (B s) (B' t)"
    and run: "while_not_converged B s = Some r" and rel: "R s t"
  shows "\<exists>r'. while_not_converged B' t = Some r' \<and> rel_sum (=) R r r'"
proof -
  define P where "P = (\<lambda>(body :: state \<Rightarrow> error + state) (s :: state) (r :: error + state).
    body = B \<longrightarrow> (\<forall>t. R s t \<longrightarrow> (\<exists>r'. while_not_converged B' t = Some r' \<and> rel_sum (=) R r r')))"
  have "P B s r"
  proof (rule while_not_converged.raw_induct [where P = P, OF _ run])
    fix w :: "(state \<Rightarrow> error + state) \<Rightarrow> state \<Rightarrow> (error + state) option"
    fix body s r
    assume IH: "\<And>b t u. w b t = Some u \<Longrightarrow> P b t u"
    assume eq: "(if \<not> converged s
                 then case body s of Inl err \<Rightarrow> Some (Inl err) | Inr s' \<Rightarrow> w body s'
                 else Some (Inr s)) = Some r"
    show "P body s r"
      unfolding P_def
    proof (intro impI allI)
      fix t
      assume B: "body = B" and R: "R s t"
      have c: "converged s = converged t" and b: "rel_sum (=) R (B s) (B' t)"
        using step [OF R] by auto
      show "\<exists>r'. while_not_converged B' t = Some r' \<and> rel_sum (=) R r r'"
      proof (cases "converged s")
        case True
        then have "r = Inr s" using eq by simp
        moreover have "while_not_converged B' t = Some (Inr t)"
          using True c by (subst while_not_converged.simps) simp
        ultimately show ?thesis using R by simp
      next
        case False
        show ?thesis
        proof (cases "B s")
          case (Inl err)
          then have "r = Inl err" using eq False B by simp
          moreover have "B' t = Inl err" using b Inl by (cases "B' t") auto
          then have "while_not_converged B' t = Some (Inl err)"
            using False c by (subst while_not_converged.simps) simp
          ultimately show ?thesis by simp
        next
          case (Inr s')
          then obtain t' where t': "B' t = Inr t'" "R s' t'"
            using b by (cases "B' t") auto
          have "w body s' = Some r" using eq False B Inr by simp
          then obtain r' where "while_not_converged B' t' = Some r'" "rel_sum (=) R r r'"
            using IH [of body s' r] B t'(2) by (auto simp: P_def)
          moreover have "while_not_converged B' t = while_not_converged B' t'"
            using False c t'(1) by (subst while_not_converged.simps) simp
          ultimately show ?thesis by simp
        qed
      qed
    qed
  qed
  then show ?thesis using rel by (simp add: P_def)
qed

lemma loop_body_no_loss_sim:
  assumes "variables s = variables t"
  shows "converged s = converged t \<and>
         rel_sum (=) (\<lambda>s t. variables s = variables t)
           (loop_body alpha X y m s) (loop_body_no_loss alpha X y m t)"
proof (cases "update_weights alpha X y (theta s)")
  case (Inl err)
  then show ?thesis using assms by (simp add: loop_body_def loop_body_no_loss_def variables_def)
next
  case (Inr th)
  then obtain e where "report_loss X y th = Inr e"
    using update_weights_Inr [OF Inr] report_loss_ok by blast
  then show ?thesis
    using Inr assms
    by (simp add: loop_body_def loop_body_no_loss_def variables_def count_iteration_simps)
qed

lemma rel_sum_flip: "rel_sum (=) (\<lambda>t s. R s t) b a \<longleftrightarrow> rel_sum (=) R a b"
  by (cases a; cases b) auto

text \<open>
  C5. The loss is diagnostic only: the loop without lines 47 to 51 returns, on every
  input, the weights that \<open>logistic_reg\<close> returns (and raises or runs forever exactly
  when \<open>logistic_reg\<close> does).
\<close>

theorem loss_is_diagnostic:
  "logistic_reg_no_loss alpha X y max_iterations =
     map_option (map_sum id fst) (logistic_reg alpha X y max_iterations)"
proof -
  let ?B = "loop_body alpha X y max_iterations"
  let ?B' = "loop_body_no_loss alpha X y max_iterations"
  let ?R = "\<lambda>s t. variables s = variables t"
  let ?s0 = "initial_state X"
  have fwd: "\<exists>r'. while_not_converged ?B' ?s0 = Some r' \<and> rel_sum (=) ?R r r'"
    if "while_not_converged ?B ?s0 = Some r" for r
  proof (rule while_simulation [where R = ?R and B = ?B and B' = ?B', OF _ that])
    fix s t :: state
    assume "variables s = variables t"
    then show "converged s = converged t \<and> rel_sum (=) ?R (?B s) (?B' t)"
      by (rule loop_body_no_loss_sim)
  qed simp
  have bwd: "\<exists>r. while_not_converged ?B ?s0 = Some r \<and> rel_sum (=) ?R r r'"
    if "while_not_converged ?B' ?s0 = Some r'" for r'
  proof -
    have "\<exists>r. while_not_converged ?B ?s0 = Some r \<and> rel_sum (=) (\<lambda>t s. ?R s t) r' r"
    proof (rule while_simulation [where R = "\<lambda>t s. ?R s t" and B = ?B' and B' = ?B, OF _ that])
      fix s t :: state
      assume "variables t = variables s"
      then show "converged s = converged t \<and>
        rel_sum (=) (\<lambda>t s. variables s = variables t) (?B' s) (?B t)"
        using loop_body_no_loss_sim [of t s alpha X y max_iterations]
          rel_sum_flip [of ?R "?B' s" "?B t"]
        by simp
    qed simp
    then show ?thesis using rel_sum_flip [of ?R r'] by auto
  qed
  show ?thesis
  proof (cases "while_not_converged ?B ?s0")
    case None
    then have "while_not_converged ?B' ?s0 = None"
      using bwd by (cases "while_not_converged ?B' ?s0") auto
    then show ?thesis using None by (simp add: logistic_reg_def logistic_reg_no_loss_def)
  next
    case (Some r)
    then obtain r' where r': "while_not_converged ?B' ?s0 = Some r'" "rel_sum (=) ?R r r'"
      using fwd by blast
    then show ?thesis
      using Some
      by (cases r; cases r')
        (simp_all add: logistic_reg_def logistic_reg_no_loss_def variables_def)
  qed
qed

lemma loop_body_stdout:
  "map_sum id variables (loop_body alpha X y m (s\<lparr>stdout := out\<rparr>)) =
   map_sum id variables (loop_body alpha X y m s)"
  by (simp add: loop_body_def variables_def count_iteration_simps split: sum.splits)

text \<open>
  C9. A run with \<open>max_iterations = k \<ge> 1\<close> prints exactly \<open>k\<close> loss lines, one per
  pass, followed by the exit message; the values are the losses at the weights after each
  update. What has been printed is not read back: the variables a pass leaves do not
  depend on the output so far.
\<close>

theorem one_loss_line_per_iteration:
  assumes "shapes_ok X y" "1 \<le> k"
  shows "(\<exists>th out es. logistic_reg alpha X y k = Some (Inr (th, out)) \<and>
            out = map J_line es @ [Text_line ''Maximum iterations exceeded!''] \<and>
            losses (nat k) alpha X y (np_zeros (ncols X)) = Inr es \<and>
            length (filter is_loss_line out) = nat k) \<and>
         (\<forall>s out. map_sum id variables (loop_body alpha X y k (s\<lparr>stdout := out\<rparr>)) =
                   map_sum id variables (loop_body alpha X y k s))"
proof -
  obtain s :: state and es where r: "logistic_reg alpha X y k = Some (Inr (theta s, stdout s))"
      "losses (nat k) alpha X y (np_zeros (ncols X)) = Inr es" "length es = nat k"
      "stdout s = map J_line es @ [Text_line ''Maximum iterations exceeded!'']"
    using logistic_reg_run [OF assms, of alpha] by blast
  have "filter is_loss_line (map J_line es) = map J_line es"
    by (induction es) simp_all
  then have "length (filter is_loss_line (stdout s)) = nat k"
    using r(3,4) by simp
  then show ?thesis using r loop_body_stdout by auto
qed

theorem one_loss_line_per_iteration_witness:
  "\<exists>th out. logistic_reg (Fin (1/10)) X_and y_and 7 = Some (Inr (th, out)) \<and>
     length (filter is_loss_line out) = 7"
  using one_loss_line_per_iteration [of X_and y_and 7 "Fin (1/10)"] sample_shapes by auto


section \<open>Rounding to the nearest double\<close>

lemma round_half_even_of_int: "round_half_even (of_int n) = n"
  by (simp add: round_half_even_def)

lemma round_half_even_ge: "of_int n \<le> q \<Longrightarrow> n \<le> round_half_even q"
proof -
  assume "of_int n \<le> q"
  then have "n \<le> \<lfloor>q\<rfloor>" by (simp add: le_floor_iff)
  then show ?thesis by (auto simp: round_half_even_def Let_def)
qed

lemma round_half_even_le: "q \<le> of_int n \<Longrightarrow> round_half_even q \<le> n"
proof -
  assume q: "q \<le> of_int n"
  then have f: "\<lfloor>q\<rfloor> \<le> n" by (simp add: floor_le_iff)
  show ?thesis
  proof (cases "\<lfloor>q\<rfloor> = n")
    case True
    then have "q - of_int \<lfloor>q\<rfloor> \<le> 0" using q by simp
    then show ?thesis using True by (simp add: round_half_even_def Let_def)
  next
    case False
    then have "\<lfloor>q\<rfloor> + 1 \<le> n" using f by simp
    then show ?thesis by (auto simp: round_half_even_def Let_def)
  qed
qed

lemma ulp_pos: "0 < ulp x"
  by (simp add: ulp_def)

lemma binade_eq:
  assumes "2 powr of_int e \<le> \<bar>x\<bar>" "\<bar>x\<bar> < 2 powr (of_int e + 1)" "- 1022 \<le> e"
  shows "binade x = e"
proof -
  have "0 < \<bar>x\<bar>" using assms(1) by (smt (verit) powr_gt_zero)
  then have "\<lfloor>log 2 \<bar>x\<bar>\<rfloor> = e"
    using assms(1,2) by (simp add: floor_log_eq_powr_iff)
  then show ?thesis using assms(3) by (simp add: binade_def)
qed

lemma rnd_exact:
  assumes "x \<noteq> 0" "x / ulp x = of_int m" "\<bar>x\<bar> < overflow_threshold"
  shows "rnd x = Fin x"
proof -
  have "round_half_even (x / ulp x) = m"
    by (simp only: assms(2) round_half_even_of_int)
  then have "of_int (round_half_even (x / ulp x)) * ulp x = x / ulp x * ulp x"
    using assms(2) by simp
  then have "of_int (round_half_even (x / ulp x)) * ulp x = x"
    using ulp_pos [of x] by simp
  then show ?thesis using assms(1,3) by (simp add: rnd_def Let_def)
qed

lemma overflow_threshold_powr: "2 powr 1024 = overflow_threshold"
  unfolding overflow_threshold_def by (rule powr_numeral) simp

lemma overflow_threshold_pos: "1 < overflow_threshold"
  unfolding overflow_threshold_def by (rule one_less_power) simp_all

lemma rnd_zero: "rnd 0 = Fin 0"
  by (simp add: rnd_def)

lemma rnd_power_of_two:
  assumes "- 1022 \<le> k" "k \<le> 1023" "s = 1 \<or> s = - 1"
  shows "rnd (s * 2 powr of_int k) = Fin (s * 2 powr of_int k)"
proof (rule rnd_exact)
  let ?x = "s * 2 powr of_int k"
  have a: "\<bar>?x\<bar> = 2 powr of_int k" using assms(3) by auto
  show "?x \<noteq> 0" using assms(3) by auto
  have "binade ?x = k"
    using assms(1) by (intro binade_eq) (simp_all add: a)
  then have u: "ulp ?x = 2 powr (of_int k - 52)" by (simp add: ulp_def)
  have "?x / ulp ?x = s * 2 powr 52"
    by (simp add: u powr_diff)
  also have "\<dots> = of_int (\<lfloor>s\<rfloor> * 2 ^ 52)"
    using assms(3) by auto
  finally show "?x / ulp ?x = of_int (\<lfloor>s\<rfloor> * 2 ^ 52)" .
  have "real_of_int k \<le> 1023" using assms(2) by simp
  then have "(2::real) powr of_int k \<le> 2 powr 1023" by (intro powr_mono) simp_all
  also have "\<dots> < (2::real) powr 1024" by (intro powr_less_mono) simp_all
  also have "\<dots> = overflow_threshold" by (rule overflow_threshold_powr)
  finally show "\<bar>?x\<bar> < overflow_threshold" by (simp only: a)
qed

lemma rnd_values:
  "rnd 1 = Fin 1" "rnd 2 = Fin 2" "rnd (1 / 2) = Fin (1 / 2)" "rnd (- (1 / 2)) = Fin (- (1 / 2))"
  "rnd (- 1) = Fin (- 1)" "rnd 2048 = Fin 2048" "rnd (- 2048) = Fin (- 2048)"
  using rnd_power_of_two [of 0 1] rnd_power_of_two [of 1 1] rnd_power_of_two [of "- 1" 1]
    rnd_power_of_two [of "- 1" "- 1"] rnd_power_of_two [of 0 "- 1"]
    rnd_power_of_two [of 11 1] rnd_power_of_two [of 11 "- 1"]
  by (simp_all add: powr_minus powr_numeral divide_simps)


lemma binade_ge: "- 1022 \<le> binade x"
  by (simp add: binade_def)

lemma binade_floor: "\<lfloor>log 2 \<bar>x\<bar>\<rfloor> \<le> binade x"
  by (simp add: binade_def)

lemma powr_binade_le:
  assumes "2 powr (- 1022) \<le> \<bar>x\<bar>"
  shows "2 powr of_int (binade x) \<le> \<bar>x\<bar>"
proof -
  have x: "0 < \<bar>x\<bar>" using assms by (smt (verit) powr_gt_zero)
  have "(- 1022 :: real) \<le> log 2 \<bar>x\<bar>"
    using assms x by (simp add: le_log_iff)
  then have "- 1022 \<le> \<lfloor>log 2 \<bar>x\<bar>\<rfloor>" by (simp add: le_floor_iff)
  then have "binade x = \<lfloor>log 2 \<bar>x\<bar>\<rfloor>" by (simp add: binade_def)
  moreover have "of_int \<lfloor>log 2 \<bar>x\<bar>\<rfloor> \<le> log 2 \<bar>x\<bar>" by simp
  ultimately have "of_int (binade x) \<le> log 2 \<bar>x\<bar>" by simp
  then show ?thesis using x by (simp add: le_log_iff)
qed

lemma less_powr_binade:
  assumes "x \<noteq> 0"
  shows "\<bar>x\<bar> < 2 powr (of_int (binade x) + 1)"
proof -
  have x: "0 < \<bar>x\<bar>" using assms by simp
  have "log 2 \<bar>x\<bar> < of_int \<lfloor>log 2 \<bar>x\<bar>\<rfloor> + 1" by linarith
  also have "\<dots> \<le> of_int (binade x) + 1" using binade_floor [of x] by simp
  finally show ?thesis using x by (simp add: log_less_iff)
qed

lemma rnd_positive:
  assumes "0 < x"
  shows "rnd x = PInf \<or> (\<exists>d. rnd x = Fin d \<and> 0 \<le> d)"
proof -
  have "(0::int) \<le> round_half_even (x / ulp x)"
    using assms ulp_pos [of x] by (intro round_half_even_ge) simp
  then have "0 \<le> of_int (round_half_even (x / ulp x)) * ulp x"
    using ulp_pos [of x] by simp
  then show ?thesis using assms by (auto simp: rnd_def Let_def)
qed

lemma rnd_lower:
  assumes "2 powr (- 1022) \<le> x"
  shows "rnd x = PInf \<or> (\<exists>d. rnd x = Fin d \<and> 2 powr of_int (binade x) \<le> d)"
proof -
  have x: "0 < x" using assms by (smt (verit) powr_gt_zero)
  have b: "2 powr of_int (binade x) \<le> x"
    using powr_binade_le [of x] assms x by simp
  have "of_int (2 ^ 52 :: int) = 2 powr of_int (binade x) / ulp x"
    by (simp add: ulp_def powr_diff)
  also have "\<dots> \<le> x / ulp x"
    using b ulp_pos [of x] by (simp add: divide_right_mono)
  finally have "2 ^ 52 \<le> round_half_even (x / ulp x)"
    by (rule round_half_even_ge)
  then have "(2 ^ 52 :: real) \<le> of_int (round_half_even (x / ulp x))"
    by (metis of_int_le_iff of_int_numeral of_int_power)
  then have "2 ^ 52 * ulp x \<le> of_int (round_half_even (x / ulp x)) * ulp x"
    using ulp_pos [of x] by (intro mult_right_mono) simp_all
  moreover have "2 ^ 52 * ulp x = 2 powr of_int (binade x)"
    by (simp add: ulp_def powr_diff)
  ultimately have "2 powr of_int (binade x) \<le> of_int (round_half_even (x / ulp x)) * ulp x"
    by simp
  then show ?thesis using x by (auto simp: rnd_def Let_def)
qed

lemma rnd_ge_one:
  assumes "1 \<le> x"
  shows "rnd x = PInf \<or> (\<exists>d. rnd x = Fin d \<and> 1 \<le> d)"
proof -
  have "(2::real) powr (- 1022) \<le> 2 powr 0" by (intro powr_mono) simp_all
  then have l: "2 powr (- 1022) \<le> x" using assms by simp
  have "(0::real) \<le> log 2 \<bar>x\<bar>" using assms by simp
  then have "0 \<le> \<lfloor>log 2 \<bar>x\<bar>\<rfloor>" by simp
  then have "0 \<le> binade x" using binade_floor [of x] by linarith
  then have "(2::real) powr 0 \<le> 2 powr of_int (binade x)" by (intro powr_mono) simp_all
  then have "(1::real) \<le> 2 powr of_int (binade x)" by simp
  then show ?thesis using rnd_lower [OF l] by force
qed

lemma rnd_overflow:
  assumes "overflow_threshold \<le> x"
  shows "rnd x = PInf"
proof -
  have x: "1 < x" using assms overflow_threshold_pos by simp
  have "(2::real) powr (- 1022) \<le> 2 powr 0" by (intro powr_mono) simp_all
  then have l: "2 powr (- 1022) \<le> x" using x by simp
  have ax: "\<bar>x\<bar> = x" using x by simp
  have "2 powr 1024 \<le> \<bar>x\<bar>" using assms by (simp only: overflow_threshold_powr ax)
  moreover have "0 < \<bar>x\<bar>" using x by simp
  ultimately have "(1024::real) \<le> log 2 \<bar>x\<bar>"
    by (intro iffD2 [OF le_log_iff]) simp_all
  then have "1024 \<le> \<lfloor>log 2 \<bar>x\<bar>\<rfloor>" by (simp add: le_floor_iff)
  then have "1024 \<le> binade x" using binade_floor [of x] by linarith
  then have "(2::real) powr 1024 \<le> 2 powr of_int (binade x)" by (intro powr_mono) simp_all
  then have t: "overflow_threshold \<le> 2 powr of_int (binade x)"
    by (simp only: overflow_threshold_powr)
  show ?thesis
  proof (rule disjE [OF rnd_lower [OF l]])
    assume "\<exists>d. rnd x = Fin d \<and> 2 powr of_int (binade x) \<le> d"
    then obtain d where d: "rnd x = Fin d" "overflow_threshold \<le> d" using t by force
    then have "d = of_int (round_half_even (x / ulp x)) * ulp x"
      using x by (auto simp: rnd_def Let_def split: if_splits)
    then show ?thesis using d x by (auto simp: rnd_def Let_def split: if_splits)
  qed
qed

lemma rnd_underflow:
  assumes "0 < x" "x < 2 powr (- 1075)"
  shows "rnd x = Fin 0"
proof -
  have "log 2 \<bar>x\<bar> < - 1075" using assms by (simp add: log_less_iff)
  then have "\<lfloor>log 2 \<bar>x\<bar>\<rfloor> < - 1022" by (simp add: floor_less_iff)
  then have "binade x = - 1022" by (simp add: binade_def)
  then have u: "ulp x = 2 powr (- 1074)" by (simp add: ulp_def)
  have "x / ulp x < 2 powr (- 1075) / 2 powr (- 1074)"
    using assms(2) by (simp add: u divide_strict_right_mono)
  also have "\<dots> = 1 / 2" by (simp add: powr_diff [symmetric] powr_minus)
  finally have q: "x / ulp x < 1 / 2" .
  have q0: "0 < x / ulp x" using assms(1) ulp_pos [of x] by simp
  have "x / ulp x < 1" using q by linarith
  then have "\<lfloor>x / ulp x\<rfloor> = 0" using q0 by (simp add: floor_eq_iff)
  then have "round_half_even (x / ulp x) = 0"
    using q by (simp add: round_half_even_def Let_def)
  then show ?thesis using assms(1) overflow_threshold_pos by (simp add: rnd_def Let_def)
qed

lemma rnd_unit:
  assumes "0 \<le> x" "x \<le> 1"
  shows "\<exists>d. rnd x = Fin d \<and> 0 \<le> d \<and> d \<le> 1"
proof -
  consider "x = 0" | "x = 1" | "0 < x" "x < 1" using assms by linarith
  then show ?thesis
  proof cases
    case 1
    then show ?thesis by (simp add: rnd_zero)
  next
    case 2
    then show ?thesis by (simp add: rnd_values)
  next
    case 3
    let ?y = "of_int (round_half_even (x / ulp x)) * ulp x"
    have "(0::int) \<le> round_half_even (x / ulp x)"
      using 3 ulp_pos [of x] by (intro round_half_even_ge) simp
    then have y0: "0 \<le> ?y" using ulp_pos [of x] by simp
    have "log 2 \<bar>x\<bar> < 0" using 3 by simp
    then have "\<lfloor>log 2 \<bar>x\<bar>\<rfloor> \<le> - 1" by (simp add: floor_le_iff)
    then have e: "binade x \<le> - 1" by (simp add: binade_def)
    have "x / ulp x < 2 powr (of_int (binade x) + 1) / ulp x"
      using less_powr_binade [of x] 3 ulp_pos [of x] by (simp add: divide_strict_right_mono)
    also have "\<dots> = of_int (2 ^ 53 :: int)"
      by (simp add: ulp_def powr_diff [symmetric])
    finally have "round_half_even (x / ulp x) \<le> 2 ^ 53"
      by (intro round_half_even_le) simp
    then have "of_int (round_half_even (x / ulp x)) \<le> (2 ^ 53 :: real)"
      by (metis of_int_le_iff of_int_numeral of_int_power)
    then have "?y \<le> 2 ^ 53 * ulp x"
      using ulp_pos [of x] by (intro mult_right_mono) simp_all
    also have "\<dots> = 2 powr 53 * ulp x"
      by (simp add: powr_numeral)
    also have "\<dots> = 2 powr (of_int (binade x) + 1)"
      by (simp only: ulp_def powr_add [symmetric]) (simp add: add.commute)
    also have "\<dots> \<le> 2 powr 0"
      using e by (intro powr_mono) simp_all
    finally have y1: "?y \<le> 1" by simp
    have "\<bar>?y\<bar> < overflow_threshold" using y0 y1 overflow_threshold_pos by simp
    then show ?thesis using 3 y0 y1 by (simp add: rnd_def Let_def)
  qed
qed

lemma exp_2048_overflow: "overflow_threshold \<le> exp (2048::real)"
proof -
  have "(2::real) ^ 1024 \<le> 2 ^ 2048" by (intro power_increasing) simp_all
  also have "\<dots> \<le> exp 1 ^ 2048"
    using exp_ge_add_one_self [of 1] by (intro power_mono) simp_all
  also have "\<dots> = exp (2048::real)" using exp_of_nat_mult [of 2048 "1::real"] by simp
  finally show ?thesis by (simp only: overflow_threshold_def)
qed

lemma exp_minus_2048_underflow: "exp (- 2048 :: real) < 2 powr (- 1075)"
proof -
  have "(2::real) powr 1075 < 2 powr 2048" by (intro powr_less_mono) simp_all
  also have "\<dots> = 2 ^ 2048" by (rule powr_numeral) simp
  also have "\<dots> \<le> exp 1 ^ 2048"
    using exp_ge_add_one_self [of 1] by (intro power_mono) simp_all
  also have "\<dots> = exp (2048::real)" using exp_of_nat_mult [of 2048 "1::real"] by simp
  finally have "2 powr 1075 < exp (2048::real)" .
  then have "inverse (exp (2048::real)) < inverse (2 powr 1075)"
    by (intro less_imp_inverse_less) simp_all
  then show ?thesis by (simp only: exp_minus powr_minus)
qed

lemma rnd_below_power_of_two:
  assumes "0 < x" "x < 2 powr of_int k" "- 1021 \<le> k" "k \<le> 1023"
  shows "\<exists>d. rnd x = Fin d \<and> 0 \<le> d \<and> d \<le> 2 powr of_int k"
proof -
  let ?y = "of_int (round_half_even (x / ulp x)) * ulp x"
  have "(0::int) \<le> round_half_even (x / ulp x)"
    using assms(1) ulp_pos [of x] by (intro round_half_even_ge) simp
  then have y0: "0 \<le> ?y" using ulp_pos [of x] by simp
  have "log 2 \<bar>x\<bar> < of_int k" using assms(1,2) by (simp add: log_less_iff)
  then have "\<lfloor>log 2 \<bar>x\<bar>\<rfloor> < k" by (simp add: floor_less_iff)
  then have "\<lfloor>log 2 \<bar>x\<bar>\<rfloor> \<le> k - 1" by simp
  then have e: "binade x \<le> k - 1" using assms(3) by (simp add: binade_def)
  have "x / ulp x < 2 powr (of_int (binade x) + 1) / ulp x"
    using less_powr_binade [of x] assms(1) ulp_pos [of x] by (simp add: divide_strict_right_mono)
  also have "\<dots> = of_int (2 ^ 53 :: int)"
    by (simp add: ulp_def powr_diff [symmetric])
  finally have "round_half_even (x / ulp x) \<le> 2 ^ 53"
    by (intro round_half_even_le) simp
  then have "of_int (round_half_even (x / ulp x)) \<le> (2 ^ 53 :: real)"
    by (metis of_int_le_iff of_int_numeral of_int_power)
  then have "?y \<le> 2 ^ 53 * ulp x"
    using ulp_pos [of x] by (intro mult_right_mono) simp_all
  also have "\<dots> = 2 powr 53 * ulp x"
    by (simp add: powr_numeral)
  also have "\<dots> = 2 powr (of_int (binade x) + 1)"
    by (simp only: ulp_def powr_add [symmetric]) (simp add: add.commute)
  also have "\<dots> \<le> 2 powr of_int k"
    using e by (intro powr_mono) simp_all
  finally have y1: "?y \<le> 2 powr of_int k" .
  have "(2::real) powr of_int k \<le> 2 powr 1023" using assms(4) by (intro powr_mono) simp_all
  also have "\<dots> < (2::real) powr 1024" by (intro powr_less_mono) simp_all
  finally have "\<bar>?y\<bar> < overflow_threshold"
    using y0 y1 by (simp only: overflow_threshold_powr)
  then show ?thesis using assms(1) y0 y1 by (simp add: rnd_def Let_def)
qed

lemma rnd_one_plus_tiny:
  assumes "0 \<le> e" "e < 2 powr (- 53)"
  shows "rnd (1 + e) = Fin 1"
proof -
  let ?x = "1 + e"
  have "(2::real) powr (- 53) \<le> 2 powr 0" by (intro powr_mono) simp_all
  then have e1: "e < 1" using assms(2) by simp
  have "binade ?x = 0"
    using assms(1) e1 by (intro binade_eq) simp_all
  then have u: "ulp ?x = 2 powr (- 52)" by (simp add: ulp_def)
  have q: "?x / ulp ?x = 2 powr 52 + e * 2 powr 52"
    by (simp add: u powr_minus field_simps)
  have "e * 2 powr 52 < 2 powr (- 53) * 2 powr 52"
    using assms(2) by (intro mult_strict_right_mono) simp_all
  also have "\<dots> = 1 / 2" by (simp add: powr_add [symmetric] powr_minus)
  finally have t: "e * 2 powr 52 < 1 / 2" .
  have t0: "0 \<le> e * 2 powr 52" using assms(1) by simp
  have p: "(2::real) powr 52 = of_int (2 ^ 52)" by (simp add: powr_numeral)
  have f: "\<lfloor>?x / ulp ?x\<rfloor> = 2 ^ 52"
    using t t0 by (simp only: q p floor_eq_iff) simp
  then have "round_half_even (?x / ulp ?x) = 2 ^ 52"
    using t by (simp add: round_half_even_def Let_def q p)
  then have "of_int (round_half_even (?x / ulp ?x)) * ulp ?x = 1"
    by (simp add: u powr_minus powr_numeral)
  moreover have "?x \<noteq> 0" using assms(1) by simp
  ultimately show ?thesis using overflow_threshold_pos by (simp add: rnd_def Let_def del: of_int_power)
qed

section \<open>The weight update and the formulas of the specification\<close>

lemmas eval_defs = loop_body_def update_weights_def report_loss_def cost_function_def mean_def
  np_dot_def broadcast_def sigmoid_function_def np_T_def of_size_def one_fl_def zero_fl_def
  minus_fl_def X_one_def np_array_def count_iteration_def initial_state_def np_zeros_def
  predict_prob_def np_sum_def rnd_zero rnd_values

lemma step1: "loop_body PInf X_one [1] 2 (initial_state X_one) =
   Inr \<lparr>converged = False, iterations = 1, theta = [PInf], stdout = [J_line NaN]\<rparr>"
  by (simp add: eval_defs)

lemma step2: "loop_body PInf X_one [1] 2
     \<lparr>converged = False, iterations = 1, theta = [PInf], stdout = [J_line NaN]\<rparr> =
   Inr \<lparr>converged = True, iterations = 2, theta = [NaN],
        stdout = [J_line NaN, J_line NaN, Text_line ''Maximum iterations exceeded!'']\<rparr>"
  by (simp add: eval_defs)

lemma run2: "logistic_reg PInf X_one [1] 2 =
   Some (Inr ([NaN], [J_line NaN, J_line NaN, Text_line ''Maximum iterations exceeded!'']))"
proof -
  obtain s :: state where s: "iterate_body (nat 2) (loop_body PInf X_one [1] 2) (initial_state X_one) = Inr s"
    "logistic_reg PInf X_one [1] 2 = Some (Inr (theta s, stdout s))"
    using logistic_reg_run [OF sample_shapes(1), of 2 PInf] by auto
  have "iterate_body (Suc (Suc 0)) (loop_body PInf X_one [1] 2) (initial_state X_one) =
    Inr \<lparr>converged = True, iterations = 2, theta = [NaN],
        stdout = [J_line NaN, J_line NaN, Text_line ''Maximum iterations exceeded!'']\<rparr>"
    by (simp add: step1 step2)
  moreover have "nat 2 = Suc (Suc 0)" by simp
  ultimately have "s = \<lparr>converged = True, iterations = 2, theta = [NaN],
        stdout = [J_line NaN, J_line NaN, Text_line ''Maximum iterations exceeded!'']\<rparr>"
    using s(1) by (simp only: sum.inject)
  then show ?thesis using s(2) by simp
qed

lemma np_dot_scores:
  "length w = ncols X \<Longrightarrow> np_dot X w = Inr (map (spec_score X w) [0..<nrows X])"
  by (simp add: np_dot_def spec_score_def [abs_def])

lemma sigmoid_function_scores:
  "sigmoid_function (map (spec_score X w) [0..<nrows X]) =
     map (spec_probability X w) [0..<nrows X]"
  by (simp add: sigmoid_function_def spec_probability_def [abs_def] comp_def)

lemma update_weights_spec:
  assumes "length w = ncols X" "length y = nrows X"
  shows "update_weights alpha X y w = Inr (spec_update alpha X y w)"
proof -
  let ?n = "nrows X" and ?f = "ncols X"
  define d where "d = map2 (-) (map (spec_probability X w) [0..<?n]) y"
  have d_len: "length d = ?n" using assms(2) by (simp add: d_def)
  have d_nth: "d ! i = spec_probability X w i - y ! i" if "i < ?n" for i
    using that assms(2) by (simp add: d_def)
  have bc: "broadcast (-) (map (spec_probability X w) [0..<?n]) y = Inr d"
    using assms(2) by (simp add: broadcast_def d_def)
  have g: "np_dot (np_T X) d =
      Inr (map (\<lambda>j. np_sum (map (\<lambda>i. elems X i j * (spec_probability X w i - y ! i))
                          [0..<?n])) [0..<?f])"
  proof -
    have "np_sum (map (\<lambda>i. elems X i j * d ! i) [0..<?n]) =
        np_sum (map (\<lambda>i. elems X i j * (spec_probability X w i - y ! i)) [0..<?n])" for j
      using d_nth by (intro arg_cong [where f = np_sum] map_cong) simp_all
    then show ?thesis using d_len by (simp add: np_dot_def np_T_def)
  qed
  have "map2 (-) w (map (\<lambda>v. alpha * v) (map (\<lambda>v. v / of_size (length y))
          (map (\<lambda>j. np_sum (map (\<lambda>i. elems X i j * (spec_probability X w i - y ! i))
                          [0..<?n])) [0..<?f]))) = spec_update alpha X y w"
    using assms by (intro nth_equalityI) (simp_all add: spec_update_def spec_gradient_def)
  then have "broadcast (-) w (map (\<lambda>v. alpha * v) (map (\<lambda>v. v / of_size (length y))
          (map (\<lambda>j. np_sum (map (\<lambda>i. elems X i j * (spec_probability X w i - y ! i))
                          [0..<?n])) [0..<?f]))) = Inr (spec_update alpha X y w)"
    using assms(1) by (simp add: broadcast_def)
  then show ?thesis
    using np_dot_scores [OF assms(1)] sigmoid_function_scores [of X w] bc g
    by (simp add: update_weights_def)
qed

text \<open>
  C1. For a feature matrix, one label per row and weights of matching length (whatever
  the learning rate and the values), one weight update of the loop computes the formulas
  of the specification: the scores are \<open>z = X \<cdot> w\<close>, the probabilities
  \<open>h = 1 / (1 + exp (- z))\<close> elementwise, and the new weights are
  \<open>w - learning_rate * (X\<^sup>T \<cdot> (h - y) / n_samples)\<close>, each operation being the one of the
  program's numbers.
\<close>

theorem update_weights_computes_spec_formulas:
  assumes "length w = ncols X" "length y = nrows X"
  shows "np_dot X w = Inr (map (spec_score X w) [0..<nrows X]) \<and>
         sigmoid_function (map (spec_score X w) [0..<nrows X]) =
           map (spec_probability X w) [0..<nrows X] \<and>
         update_weights alpha X y w = Inr (spec_update alpha X y w)"
  using assms np_dot_scores sigmoid_function_scores update_weights_spec by simp

lemmas spec_defs = spec_update_def spec_gradient_def spec_probability_def spec_score_def

lemma spec_update_sample: "spec_update 1 X_one [1] [0] = [Fin (1 / 2)]"
  by (simp add: spec_defs eval_defs)

theorem update_weights_computes_spec_formulas_witness:
  "update_weights 1 X_one [1] [0] = Inr [Fin (1 / 2)] \<and>
   spec_update 1 X_one [1] [0] = [Fin (1 / 2)]"
  using update_weights_computes_spec_formulas [of "[0]" X_one "[1]" 1] sample_shapes spec_update_sample by simp

section \<open>Losses that are not finite\<close>

text \<open>
  C6. \<open>cost_function\<close> takes the logarithms of \<open>h\<close> and \<open>1 - h\<close> as they are: at a
  probability of exactly 0 or 1 the loss is infinite or NaN. In a run (single sample,
  infinite learning rate) the first update makes the predicted probability exactly 1, the
  loss printed is NaN, the exit flag stays unset and the loop goes through its second
  pass.
\<close>

theorem loss_not_finite_and_loop_continues:
  "cost_function [0] [1] = Inr PInf \<and>
   cost_function [1] [1] = Inr NaN \<and>
   update_weights PInf X_one [1] (np_zeros (ncols X_one)) = Inr [PInf] \<and>
   predict_prob [PInf] X_one = Inr [1] \<and>
   report_loss X_one [1] [PInf] = Inr NaN \<and>
   loop_body PInf X_one [1] 2 (initial_state X_one) =
     Inr \<lparr>converged = False, iterations = 1, theta = [PInf], stdout = [J_line NaN]\<rparr> \<and>
   logistic_reg PInf X_one [1] 2 =
     Some (Inr ([NaN], [J_line NaN, J_line NaN, Text_line ''Maximum iterations exceeded!'']))"
  using step1 run2 by (simp add: eval_defs)

section \<open>Prediction\<close>

lemma probability_unit_interval: "unit_interval (1 / (1 + np_exp (- v)))"
proof (cases v)
  case (Fin t)
  have "rnd (exp (- t)) = PInf \<or> (\<exists>d. rnd (exp (- t)) = Fin d \<and> 0 \<le> d)"
    by (rule rnd_positive) simp
  then show ?thesis
  proof
    assume "rnd (exp (- t)) = PInf"
    then show ?thesis using Fin by (simp add: one_fl_def)
  next
    assume "\<exists>d. rnd (exp (- t)) = Fin d \<and> 0 \<le> d"
    then obtain d where d: "rnd (exp (- t)) = Fin d" "0 \<le> d" by blast
    have "rnd (1 + d) = PInf \<or> (\<exists>c. rnd (1 + d) = Fin c \<and> 1 \<le> c)"
      using d(2) by (intro rnd_ge_one) simp
    then show ?thesis
    proof
      assume "rnd (1 + d) = PInf"
      then show ?thesis using Fin d by (simp add: one_fl_def)
    next
      assume "\<exists>c. rnd (1 + d) = Fin c \<and> 1 \<le> c"
      then obtain c where c: "rnd (1 + d) = Fin c" "1 \<le> c" by blast
      obtain p where "rnd (1 / c) = Fin p" "0 \<le> p" "p \<le> 1"
        using rnd_unit [of "1 / c"] c(2) by auto
      then show ?thesis using Fin d c by (simp add: one_fl_def)
    qed
  qed
qed (simp_all add: one_fl_def rnd_values)

lemma predict_prob_spec:
  "length th = ncols X \<Longrightarrow> predict_prob th X = Inr (map (spec_probability X th) [0..<nrows X])"
  by (simp add: predict_prob_def np_dot_scores sigmoid_function_scores)

lemma predict_calls_stateless: "predict_calls Xs th = (map (predict_prob th) Xs, th)"
  by (induction Xs) (simp_all add: call_predict_prob_def)

text \<open>
  C7 (amended). For weights of the length of the rows of \<open>X\<close>, \<open>predict_prob\<close> computes
  \<open>1 / (1 + exp (- z))\<close> of the scores \<open>z = X \<cdot> weights\<close>; each output is NaN or lies
  between 0 and 1, both included; calls do not change the weights, so any sequence of
  calls returns what the single calls return.
\<close>

theorem predict_prob_sigmoid_of_scores:
  assumes "length th = ncols X"
  shows "predict_prob th X = Inr (map (spec_probability X th) [0..<nrows X]) \<and>
         list_all unit_interval (map (spec_probability X th) [0..<nrows X]) \<and>
         predict_calls Xs th = (map (predict_prob th) Xs, th)"
  using assms predict_prob_spec predict_calls_stateless probability_unit_interval
  by (simp add: list_all_iff spec_probability_def)

theorem predict_prob_sigmoid_of_scores_witness:
  "predict_prob [0] X_one = Inr [Fin (1 / 2)] \<and>
   predict_calls [X_one, X_one] [0] = ([Inr [Fin (1 / 2)], Inr [Fin (1 / 2)]], [0])"
proof -
  have "map (spec_probability X_one [0]) [0..<nrows X_one] = [Fin (1 / 2)]"
    by (simp add: spec_defs eval_defs)
  then show ?thesis
    using predict_prob_sigmoid_of_scores [of "[0]" X_one "[X_one, X_one]"] sample_shapes by simp
qed

lemma rnd_40: "rnd 40 = Fin 40"
proof (rule rnd_exact)
  show "(40::real) \<noteq> 0" by simp
  have "binade 40 = 5"
    by (intro binade_eq) (simp_all add: powr_numeral)
  then have u: "ulp 40 = 2 powr (- 47)" by (simp add: ulp_def)
  show "40 / ulp 40 = of_int (40 * 2 ^ 47)"
    by (simp add: u powr_minus powr_numeral)
  show "\<bar>40::real\<bar> < overflow_threshold"
    unfolding overflow_threshold_def by simp
qed

lemma exp_minus_40_tiny: "exp (- 40 :: real) < 2 powr (- 54)"
proof -
  have "(2::real) powr 54 = 2 ^ 54" by (rule powr_numeral) simp
  also have "\<dots> < (13 / 8) ^ 80" by (simp add: power_divide)
  also have "\<dots> \<le> exp (1 / 2) ^ 80"
    using exp_lower_Taylor_quadratic [of "1 / 2 :: real"]
    by (intro power_mono) (simp_all add: power2_eq_square)
  also have "\<dots> = exp (40::real)" using exp_of_nat_mult [of 80 "1 / 2 :: real"] by simp
  finally have "2 powr 54 < exp (40::real)" .
  then have "inverse (exp (40::real)) < inverse (2 powr 54)"
    by (intro less_imp_inverse_less) simp_all
  then show ?thesis by (simp only: exp_minus powr_minus)
qed

lemma sigmoid_40: "predict_prob [Fin 40] X_one = Inr [Fin 1]"
proof -
  have "\<exists>d. rnd (exp (- 40)) = Fin d \<and> 0 \<le> d \<and> d \<le> 2 powr of_int (- 54)"
    using exp_minus_40_tiny by (intro rnd_below_power_of_two) simp_all
  then obtain d where d: "rnd (exp (- 40)) = Fin d" "0 \<le> d" "d \<le> 2 powr (- 54)"
    by auto
  have "(2::real) powr (- 54) < 2 powr (- 53)" by (intro powr_less_mono) simp_all
  then have "d < 2 powr (- 53)" using d(3) by linarith
  then have "rnd (1 + d) = Fin 1" using d(2) by (intro rnd_one_plus_tiny)
  then show ?thesis using d(1) rnd_40 by (simp add: eval_defs)
qed

text \<open>C7 as stated fails on finite inputs: at the score 40 the rounded sum
  \<open>1 + exp (- 40)\<close> is 1 and the prediction is exactly 1, as it is at the score 2048,
  where the exponential underflows to 0; at the score -2048 the exponential overflows and
  the prediction is exactly 0.\<close>

theorem predict_prob_output_not_strictly_inside:
  "predict_prob [Fin 40] X_one = Inr [Fin 1] \<and>
   predict_prob [Fin 2048] X_one = Inr [Fin 1] \<and>
   predict_prob [Fin (- 2048)] X_one = Inr [Fin 0]"
proof -
  have "rnd (exp (- 2048)) = Fin 0"
    using exp_minus_2048_underflow by (intro rnd_underflow) simp_all
  moreover have "rnd (exp 2048) = PInf"
    using exp_2048_overflow by (rule rnd_overflow)
  ultimately have "predict_prob [Fin 2048] X_one = Inr [Fin 1]"
    "predict_prob [Fin (- 2048)] X_one = Inr [Fin 0]"
    by (simp_all add: eval_defs)
  then show ?thesis using sigmoid_40 by simp
qed

end
